theory Spec2Isabelle
  imports Main "HOL-Library.Word" "HOL-Library.Sublist"
begin

section \<open>The scalar type \<open>real\<close> of the host\<close>

text \<open>
  \<open>cell_volume.c\<close> includes the solver's \<open>udf.h\<close>, which declares \<open>real\<close>. In the
  double-precision solver \<open>real\<close> is the C type \<open>double\<close>: an IEEE 754 binary64 value,
  here the 64-bit pattern itself (sign bit, 11 exponent bits, 52 mantissa bits). A value of
  this type is a finite number, an infinity or a NaN.
\<close>

type_synonym creal = "64 word"

definition sign_bit :: "creal \<Rightarrow> bool" where
  "sign_bit x = (unat x div 2 ^ 63 = 1)"

definition exponent_bits :: "creal \<Rightarrow> nat" where
  "exponent_bits x = (unat x div 2 ^ 52) mod 2 ^ 11"

definition mantissa_bits :: "creal \<Rightarrow> nat" where
  "mantissa_bits x = unat x mod 2 ^ 52"

definition is_nan :: "creal \<Rightarrow> bool" where
  "is_nan x = (exponent_bits x = 2047 \<and> mantissa_bits x \<noteq> 0)"

definition is_finite :: "creal \<Rightarrow> bool" where
  "is_finite x = (exponent_bits x < 2047)"

text \<open>
  A finite value is \<open>\<plusminus> significand x * 2 ^ (exponent x - 1075)\<close>; the subnormal numbers
  and the zeros have exponent bits 0 and no implicit leading bit.
\<close>

definition significand :: "creal \<Rightarrow> nat" where
  "significand x = (if exponent_bits x = 0 then mantissa_bits x else 2 ^ 52 + mantissa_bits x)"

definition exponent :: "creal \<Rightarrow> nat" where
  "exponent x = (if exponent_bits x = 0 then 1 else exponent_bits x)"

definition round_half_even :: "nat \<Rightarrow> nat \<Rightarrow> nat" where
  "round_half_even n d =
     (let q = n div d; r = n mod d
      in if d < 2 * r \<or> (2 * r = d \<and> odd q) then q + 1 else q)"

subsection \<open>Addition (\<open>vol_tot += volume\<close>)\<close>

text \<open>
  Binary64 addition in the default rounding mode (to nearest, ties to even). A NaN operand
  is passed on quieted, and \<open>\<infinity> + (-\<infinity>)\<close> gives the default NaN of x86-64.
\<close>

fun bitlen :: "nat \<Rightarrow> nat" where
  "bitlen n = (if n = 0 then 0 else Suc (bitlen (n div 2)))"

declare bitlen.simps [simp del]

definition pack :: "bool \<Rightarrow> nat \<Rightarrow> nat \<Rightarrow> creal" where
  "pack neg e m = of_nat ((if neg then 2 ^ 63 else 0) + e * 2 ^ 52 + m)"

definition quiet :: "creal \<Rightarrow> creal" where
  "quiet x = pack (sign_bit x) 2047 (mantissa_bits x mod 2 ^ 51 + 2 ^ 51)"

definition normalise :: "bool \<Rightarrow> nat \<Rightarrow> nat \<Rightarrow> creal" where
  "normalise neg m e =
     (let l = bitlen m in
      if 53 < l then
        (let q = round_half_even m (2 ^ (l - 53));
             e' = (if q = 2 ^ 53 then e + (l - 53) + 1 else e + (l - 53))
         in if 2047 \<le> e' then pack neg 2047 0
            else pack neg e' ((if q = 2 ^ 53 then 2 ^ 52 else q) - 2 ^ 52))
      else
        (let k = min (53 - l) (e - 1); m' = m * 2 ^ k
         in if m' < 2 ^ 52 then pack neg 0 m' else pack neg (e - k) (m' - 2 ^ 52)))"

definition fadd :: "creal \<Rightarrow> creal \<Rightarrow> creal" where
  "fadd x y =
     (if is_nan x then quiet x
      else if is_nan y then quiet y
      else if \<not> is_finite x then
        (if \<not> is_finite y \<and> sign_bit x \<noteq> sign_bit y then pack True 2047 (2 ^ 51) else x)
      else if \<not> is_finite y then y
      else
        (let e = min (exponent x) (exponent y);
             a = significand x * 2 ^ (exponent x - e);
             b = significand y * 2 ^ (exponent y - e)
         in if sign_bit x = sign_bit y then normalise (sign_bit x) (a + b) e
            else if b < a then normalise (sign_bit x) (a - b) e
            else if a < b then normalise (sign_bit y) (b - a) e
            else pack False 0 0))"

subsection \<open>The conversion \<open>%.pf\<close> of the C library\<close>

text \<open>
  \<open>format_f p x\<close> is what \<open>printf\<close> writes for the conversion \<open>%.pf\<close> in the C locale: an
  optional minus sign, the integer part in base ten, and for \<open>0 < p\<close> a decimal point and
  exactly \<open>p\<close> digits, the exact value rounded to nearest (ties to even) at that digit. An
  infinity is written \<open>inf\<close> and a NaN \<open>nan\<close>, with no digits at all.
\<close>

definition scaled :: "nat \<Rightarrow> creal \<Rightarrow> nat" where
  "scaled p x =
     (if 1075 \<le> exponent x then significand x * 2 ^ (exponent x - 1075) * 10 ^ p
      else round_half_even (significand x * 10 ^ p) (2 ^ (1075 - exponent x)))"

definition digit :: "nat \<Rightarrow> char" where
  "digit k = ''0123456789'' ! k"

fun decimal :: "nat \<Rightarrow> string" where
  "decimal n = (if n < 10 then [digit n] else decimal (n div 10) @ [digit (n mod 10)])"

declare decimal.simps [simp del]

fun digits_w :: "nat \<Rightarrow> nat \<Rightarrow> string" where
  "digits_w w n = (if w = 0 then [] else digits_w (w - 1) (n div 10) @ [digit (n mod 10)])"

declare digits_w.simps [simp del]

definition format_f :: "nat \<Rightarrow> creal \<Rightarrow> string" where
  "format_f p x =
     (if sign_bit x then ''-'' else []) @
     (if is_nan x then ''nan''
      else if \<not> is_finite x then ''inf''
      else decimal (scaled p x div 10 ^ p) @
           (if p = 0 then [] else ''.'' @ digits_w p (scaled p x mod 10 ^ p)))"

abbreviation newline :: char where
  "newline \<equiv> CHR 0x0A"

section \<open>The world the routine runs in\<close>

text \<open>
  A cell thread is the host's storage of its cells' volumes, indexed by the cell; a domain
  is the list of its cell threads in the order the host enumerates them. A thread pointer,
  the loop variable \<open>t\<close>, is the position of the thread in that list together with the
  thread.
\<close>

type_synonym cell_t = nat
type_synonym Thread = "creal list"
type_synonym Domain = "Thread list"
type_synonym Thread_ptr = "nat \<times> Thread"

type_synonym path = string

datatype FILE = Stream path

text \<open>A \<open>FILE *\<close> is \<open>None\<close> (the null pointer) or a stream.\<close>

type_synonym FILE_ptr = "FILE option"

datatype event =
    Call_fopen path string FILE_ptr
  | Call_printf string
  | Call_fprintf FILE_ptr string
  | Call_fclose FILE_ptr
  | Visit_thread nat
  | Visit_cell nat cell_t

text \<open>
  The state: the file system (\<open>files\<close>, and \<open>can_open\<close>, whether the system lets a path be
  opened for writing), the streams now open, the standard output stream (whether it is
  buffered, the text waiting in its buffer, and the text that has reached the console), the
  host's domains by index, the routine's variables \<open>volume\<close> and \<open>vol_tot\<close>, and the
  history of library calls and loop iterations. The history is written to and never read: it
  records what a run did.

  The routine declares \<open>real volume,vol_tot;\<close> with no initialiser, so at entry the two
  variables hold whatever was in their place; in the model that is the value the state has
  for them when the routine starts.
\<close>

record state =
  files :: "path \<Rightarrow> string option"
  can_open :: "path \<Rightarrow> bool"
  open_streams :: "path list"
  stdout_buffered :: bool
  stdout_buffer :: string
  console :: string
  domains :: "int \<Rightarrow> Domain"
  volume :: creal
  vol_tot :: creal
  trace :: "event list"

text \<open>
  A call returns, or its behaviour is undefined in C (a null or closed stream handed to
  the library, a read outside a thread's storage): \<open>Undefined s\<close> is the state in which
  that happened, and nothing is known of what follows.
\<close>

datatype outcome = Returned state | Undefined state

definition and_then :: "outcome \<Rightarrow> (state \<Rightarrow> outcome) \<Rightarrow> outcome" where
  "and_then r k = (case r of Returned s \<Rightarrow> k s | Undefined s \<Rightarrow> Undefined s)"

definition record_event :: "event \<Rightarrow> state \<Rightarrow> state" where
  "record_event e s = s\<lparr>trace := trace s @ [e]\<rparr>"

definition contents :: "state \<Rightarrow> path \<Rightarrow> string" where
  "contents s p = (case files s p of None \<Rightarrow> [] | Some text \<Rightarrow> text)"

subsection \<open>The C library\<close>

text \<open>
  \<open>fopen\<close> in the modes \<open>"a"\<close> (append: the file is created when missing and kept as it is
  otherwise) and \<open>"w"\<close> (the file is created or emptied). It returns the null pointer when
  the file cannot be opened; no other mode is modelled.
\<close>

definition fopen :: "path \<Rightarrow> string \<Rightarrow> state \<Rightarrow> FILE_ptr \<times> state" where
  "fopen p mode s =
     (if (mode = ''a'' \<or> mode = ''w'') \<and> can_open s p then
        (Some (Stream p),
         record_event (Call_fopen p mode (Some (Stream p)))
           (s\<lparr>files := (files s)(p \<mapsto> (if mode = ''a'' then contents s p else [])),
              open_streams := p # open_streams s\<rparr>))
      else (None, record_event (Call_fopen p mode None) s))"

text \<open>
  \<open>printf\<close> writes to the standard output stream. When the stream is buffered the text
  waits in the buffer until the library flushes it, which the routine never asks for: it
  reaches the console some time after the routine has returned, and is lost when the
  process dies before that. When the stream is not buffered the text goes to the console
  in the call. The call itself cannot fail in the model.
\<close>

definition printf :: "string \<Rightarrow> state \<Rightarrow> state" where
  "printf text s =
     record_event (Call_printf text)
       (if stdout_buffered s then s\<lparr>stdout_buffer := stdout_buffer s @ text\<rparr>
        else s\<lparr>stdout_buffer := [], console := console s @ stdout_buffer s @ text\<rparr>)"

text \<open>
  \<open>fprintf\<close> with its format already applied: \<open>text\<close> is what the call writes. Output
  to a stream goes to the end of its file; the buffer in between is not modelled, and
  writing to an open stream does not fail. A file holds the characters written to its
  text stream: a newline is one character, whatever the system stores for it.
\<close>

definition fprintf :: "FILE_ptr \<Rightarrow> string \<Rightarrow> state \<Rightarrow> outcome" where
  "fprintf fp text s =
     (case fp of
        None \<Rightarrow> Undefined (record_event (Call_fprintf fp text) s)
      | Some (Stream p) \<Rightarrow>
          if p \<in> set (open_streams s) then
            Returned (record_event (Call_fprintf fp text)
              (s\<lparr>files := (files s)(p \<mapsto> contents s p @ text)\<rparr>))
          else Undefined (record_event (Call_fprintf fp text) s))"

definition fclose :: "FILE_ptr \<Rightarrow> state \<Rightarrow> outcome" where
  "fclose fp s =
     (case fp of
        None \<Rightarrow> Undefined (record_event (Call_fclose fp) s)
      | Some (Stream p) \<Rightarrow>
          if p \<in> set (open_streams s) then
            Returned (record_event (Call_fclose fp)
              (s\<lparr>open_streams := remove1 p (open_streams s)\<rparr>))
          else Undefined (record_event (Call_fclose fp) s))"

subsection \<open>The host's interface (\<open>udf.h\<close>)\<close>

text \<open>
  The routine reaches the mesh through \<open>Get_Domain\<close>, \<open>thread_loop_c\<close>, \<open>begin_c_loop\<close> ...
  \<open>end_c_loop\<close> and \<open>C_VOLUME\<close>. All four are declared in the solver's \<open>udf.h\<close>, which is
  not among the sources; each is modelled from what the spec says of the host's interface.
\<close>

text \<open>
  Modelled from the spec: \<open>Get_Domain\<close> of \<open>udf.h\<close> is missing. The spec: "get domain by
  index"; the domain is the host's and is borrowed for the call.
\<close>

definition Get_Domain :: "int \<Rightarrow> state \<Rightarrow> Domain" where
  "Get_Domain i s = domains s i"

text \<open>
  Modelled from the spec: \<open>C_VOLUME\<close> of \<open>udf.h\<close> is missing. The spec: "get volume of a cell
  within a cell-collection", a scalar the host has computed and owns. It is read from the
  thread's storage; outside the storage there is nothing to read.
\<close>

definition C_VOLUME :: "cell_t \<Rightarrow> Thread_ptr \<Rightarrow> creal option" where
  "C_VOLUME c t = (if c < length (snd t) then Some (snd t ! c) else None)"

primrec for_each :: "'a list \<Rightarrow> ('a \<Rightarrow> state \<Rightarrow> outcome) \<Rightarrow> state \<Rightarrow> outcome" where
  "for_each [] body s = Returned s"
| "for_each (x # xs) body s = and_then (body x s) (for_each xs body)"

text \<open>
  Modelled from the spec: \<open>thread_loop_c\<close> of \<open>udf.h\<close> is missing. The spec: "enumerate
  cell-collections of a domain", a finite traversal in the host's order that visits every
  cell-collection once. The body runs for each cell thread of the domain in turn; each
  iteration is recorded in the history before the body runs.
\<close>

definition thread_loop_c :: "Domain \<Rightarrow> (Thread_ptr \<Rightarrow> state \<Rightarrow> outcome) \<Rightarrow> state \<Rightarrow> outcome" where
  "thread_loop_c d body =
     for_each (enumerate 0 d) (\<lambda>t s. body t (record_event (Visit_thread (fst t)) s))"

text \<open>
  Modelled from the spec: \<open>begin_c_loop\<close> and \<open>end_c_loop\<close> of \<open>udf.h\<close> are missing. The
  spec: "enumerate cells of a cell-collection", every cell visited once. The body runs for
  the cells \<open>0\<close>, ..., \<open>n - 1\<close> of the thread in turn; each iteration is recorded in the
  history before the body runs.
\<close>

definition begin_c_loop :: "Thread_ptr \<Rightarrow> (cell_t \<Rightarrow> state \<Rightarrow> outcome) \<Rightarrow> state \<Rightarrow> outcome" where
  "begin_c_loop t body =
     for_each [0..<length (snd t)] (\<lambda>c s. body c (record_event (Visit_cell (fst t) c) s))"

section \<open>The routine\<close>

definition volumedata_csv :: path where
  "volumedata_csv = ''H:'' @ [CHR 0x5C] @ ''volumedata.csv''"

text \<open>
  \<open>DEFINE_ON_DEMAND(on_demand_calc)\<close>, statement by statement. No result of a library
  call is tested: \<open>fp\<close> goes from \<open>fopen\<close> to \<open>fprintf\<close> and \<open>fclose\<close> as it is.
\<close>

definition on_demand_calc :: "state \<Rightarrow> outcome" where
  "on_demand_calc s0 =
     (let d = Get_Domain 1 s0;
          (fp, s1) = fopen volumedata_csv ''a'' s0;
          s2 = printf (''File created'' @ [newline]) s1
      in and_then
           (thread_loop_c d (\<lambda>t.
              begin_c_loop t (\<lambda>c s.
                case C_VOLUME c t of
                  None \<Rightarrow> Undefined s
                | Some v \<Rightarrow>
                    and_then (fprintf fp (format_f 20 v @ [newline]) (s\<lparr>volume := v\<rparr>))
                      (\<lambda>s'. Returned (s'\<lparr>vol_tot := fadd (vol_tot s') (volume s')\<rparr>)))) s2)
           (\<lambda>s3. and_then (fclose fp s3)
              (\<lambda>s4. Returned (printf (''File closed'' @ [newline]) s4))))"

section \<open>Observing a run\<close>

text \<open>Whether the routine came back, and the state it ended in.\<close>

definition returned :: "outcome \<Rightarrow> bool" where
  "returned r = (case r of Returned s \<Rightarrow> True | Undefined s \<Rightarrow> False)"

definition final :: "outcome \<Rightarrow> state" where
  "final r = (case r of Returned s \<Rightarrow> s | Undefined s \<Rightarrow> s)"

text \<open>
  The history a run adds, the library calls in it, and the threads and cells whose loop
  bodies it entered.
\<close>

definition events_since :: "state \<Rightarrow> state \<Rightarrow> event list" where
  "events_since s s' = drop (length (trace s)) (trace s')"

fun is_call :: "event \<Rightarrow> bool" where
  "is_call (Visit_thread k) = False"
| "is_call (Visit_cell k c) = False"
| "is_call e = True"

definition library_calls :: "event list \<Rightarrow> event list" where
  "library_calls evs = filter is_call evs"

fun thread_visits :: "event list \<Rightarrow> nat list" where
  "thread_visits [] = []"
| "thread_visits (Visit_thread k # evs) = k # thread_visits evs"
| "thread_visits (e # evs) = thread_visits evs"

fun cell_visits :: "event list \<Rightarrow> (nat \<times> cell_t) list" where
  "cell_visits [] = []"
| "cell_visits (Visit_cell k c # evs) = (k, c) # cell_visits evs"
| "cell_visits (e # evs) = cell_visits evs"

text \<open>Every cell of a domain, as the position of its thread and its index in the thread.\<close>

definition cells_of :: "Domain \<Rightarrow> (nat \<times> cell_t) list" where
  "cells_of d = concat (map (\<lambda>t. map (Pair (fst t)) [0..<length (snd t)]) (enumerate 0 d))"

subsection \<open>The text of the output file\<close>

text \<open>
  The record of one cell is its volume under \<open>%.20f\<close> and a newline; \<open>written vs\<close> is
  the records of the volumes \<open>vs\<close> one after the other, and nothing else.
\<close>

definition record_line :: "creal \<Rightarrow> string" where
  "record_line v = format_f 20 v @ [newline]"

definition written :: "creal list \<Rightarrow> string" where
  "written vs = concat (map record_line vs)"

text \<open>
  \<open>lines_of\<close> cuts a text at its newlines. \<open>fixed_point p\<close> recognises an optional minus
  sign, one or more digits, a decimal point and exactly \<open>p\<close> digits.
\<close>

fun split_lines :: "string \<Rightarrow> string \<Rightarrow> string list" where
  "split_lines cur [] = (if cur = [] then [] else [cur])"
| "split_lines cur (c # cs) =
     (if c = newline then cur # split_lines [] cs else split_lines (cur @ [c]) cs)"

definition lines_of :: "string \<Rightarrow> string list" where
  "lines_of text = split_lines [] text"

definition is_digit :: "char \<Rightarrow> bool" where
  "is_digit c = (c \<in> set ''0123456789'')"

definition fixed_point :: "nat \<Rightarrow> string \<Rightarrow> bool" where
  "fixed_point p s =
     (let u = (if s \<noteq> [] \<and> hd s = CHR ''-'' then tl s else s);
          ip = takeWhile is_digit u;
          rest = dropWhile is_digit u
      in ip \<noteq> [] \<and> rest \<noteq> [] \<and> hd rest = CHR ''.'' \<and>
         length (tl rest) = p \<and> list_all is_digit (tl rest))"

text \<open>
  The number a numeral denotes, in units of its last digit: \<open>scaled_value\<close> reads the
  digits of a text as one base-ten number, leaving out the sign and the decimal point.
\<close>

definition digit_value :: "char \<Rightarrow> nat" where
  "digit_value c = of_char c - 48"

definition numeral_value :: "string \<Rightarrow> nat" where
  "numeral_value s = foldl (\<lambda>a c. 10 * a + digit_value c) 0 s"

definition scaled_value :: "string \<Rightarrow> nat" where
  "scaled_value s = numeral_value (filter is_digit s)"

text \<open>
  \<open>renders p x s\<close>: the text \<open>s\<close> is a rendering of the finite number \<open>x\<close> with \<open>p\<close>
  digits after the decimal point. It is a fixed-point numeral with \<open>p\<close> fractional digits,
  it starts with a minus sign exactly when \<open>x\<close> has its sign bit set, and its value is
  within half a unit of its last digit of \<open>\<bar>x\<bar> = significand x * 2 ^ exponent x / 2 ^ 1075\<close>.
\<close>

definition renders :: "nat \<Rightarrow> creal \<Rightarrow> string \<Rightarrow> bool" where
  "renders p x s \<longleftrightarrow>
     fixed_point p s \<and>
     (hd s = CHR ''-'') = sign_bit x \<and>
     2 * \<bar>int (scaled_value s) * 2 ^ 1075 - int (significand x * 2 ^ exponent x * 10 ^ p)\<bar>
       \<le> 2 ^ 1075"

text \<open>
  \<open>rendering p x s\<close>: the text \<open>s\<close> is what stands for the value \<open>x\<close>, finite or not: a
  rendering with \<open>p\<close> fractional digits of a finite number, \<open>inf\<close> or \<open>-inf\<close> for an
  infinity, \<open>nan\<close> or \<open>-nan\<close> for a NaN.
\<close>

definition rendering :: "nat \<Rightarrow> creal \<Rightarrow> string \<Rightarrow> bool" where
  "rendering p x s \<longleftrightarrow>
     (if is_nan x then s = (if sign_bit x then ''-nan'' else ''nan'')
      else if \<not> is_finite x then s = (if sign_bit x then ''-inf'' else ''inf'')
      else renders p x s)"

text \<open>The sum of a list of volumes, added up in their order; the empty sum is \<open>+0.0\<close>.\<close>

definition sum_volumes :: "creal list \<Rightarrow> creal" where
  "sum_volumes vs = (case vs of [] \<Rightarrow> 0 | v # vs' \<Rightarrow> foldl fadd v vs')"

subsection \<open>Names for the proofs\<close>

text \<open>The body of the cell loop, the two console messages, and the history of a run.\<close>

definition cell_body :: "FILE_ptr \<Rightarrow> Thread_ptr \<Rightarrow> cell_t \<Rightarrow> state \<Rightarrow> outcome" where
  "cell_body fp t c s =
     (case C_VOLUME c t of
        None \<Rightarrow> Undefined s
      | Some v \<Rightarrow>
          and_then (fprintf fp (format_f 20 v @ [newline]) (s\<lparr>volume := v\<rparr>))
            (\<lambda>s'. Returned (s'\<lparr>vol_tot := fadd (vol_tot s') (volume s')\<rparr>)))"

definition created :: string where
  "created = ''File created'' @ [newline]"

definition closed :: string where
  "closed = ''File closed'' @ [newline]"

definition cell_events :: "FILE_ptr \<Rightarrow> nat \<Rightarrow> Thread \<Rightarrow> cell_t list \<Rightarrow> event list" where
  "cell_events fp k vs cs =
     concat (map (\<lambda>c. [Visit_cell k c, Call_fprintf fp (record_line (vs ! c))]) cs)"

definition thread_events :: "FILE_ptr \<Rightarrow> Thread_ptr \<Rightarrow> event list" where
  "thread_events fp t = Visit_thread (fst t) # cell_events fp (fst t) (snd t) [0..<length (snd t)]"

definition loop_events :: "FILE_ptr \<Rightarrow> Thread_ptr list \<Rightarrow> event list" where
  "loop_events fp ts = concat (map (thread_events fp) ts)"

definition run_events :: "Domain \<Rightarrow> event list" where
  "run_events d =
     [Call_fopen volumedata_csv ''a'' (Some (Stream volumedata_csv)), Call_printf created] @
     loop_events (Some (Stream volumedata_csv)) (enumerate 0 d) @
     [Call_fclose (Some (Stream volumedata_csv)), Call_printf closed]"

text \<open>
  The history of the two loops when the stream is the null pointer: empty threads are
  passed over, and the first cell met is the last thing visited.
\<close>

fun null_visits :: "Thread_ptr list \<Rightarrow> event list" where
  "null_visits [] = []"
| "null_visits ((k, []) # ts) = Visit_thread k # null_visits ts"
| "null_visits ((k, v # vs) # ts) =
     [Visit_thread k, Visit_cell k 0, Call_fprintf None (record_line v)]"

definition untouched :: "state \<Rightarrow> state \<Rightarrow> event list \<Rightarrow> bool" where
  "untouched s s' evs \<longleftrightarrow>
     files s' = files s \<and> can_open s' = can_open s \<and> open_streams s' = open_streams s \<and>
     stdout_buffered s' = stdout_buffered s \<and> stdout_buffer s' = stdout_buffer s \<and>
     console s' = console s \<and> domains s' = domains s \<and> vol_tot s' = vol_tot s \<and>
     trace s' = trace s @ evs"

text \<open>
  A state to run the routine in: whether the file can be opened, what it holds, the domain
  with index 1, and the value found in the uninitialised variables. The standard output is
  buffered and its buffer empty.
\<close>

definition example :: "bool \<Rightarrow> string option \<Rightarrow> Domain \<Rightarrow> creal \<Rightarrow> state" where
  "example ok old d junk =
     \<lparr>files = (\<lambda>p. if p = volumedata_csv then old else None),
      can_open = (\<lambda>p. ok),
      open_streams = [],
      stdout_buffered = True,
      stdout_buffer = [],
      console = [],
      domains = (\<lambda>i. if i = 1 then d else []),
      volume = junk,
      vol_tot = junk,
      trace = []\<rparr>"

section \<open>The conversion writes a fixed-point numeral\<close>

lemma digit_is_digit: "k < 10 \<Longrightarrow> is_digit (digit k)"
  unfolding digit_def is_digit_def by (auto simp: eval_nat_numeral less_Suc_eq)

lemma is_digit_simps [simp]:
  "\<not> is_digit CHR ''.''" "\<not> is_digit CHR ''-''" "\<not> is_digit newline"
  by (simp_all add: is_digit_def)

lemma decimal_digits: "list_all is_digit (decimal n)"
proof (induction n rule: decimal.induct)
  case (1 n)
  show ?case
  proof (cases "n < 10")
    case True
    then show ?thesis
      by (subst decimal.simps) (simp add: digit_is_digit)
  next
    case False
    with 1 show ?thesis
      by (subst decimal.simps) (simp add: digit_is_digit)
  qed
qed

lemma decimal_not_empty: "decimal n \<noteq> []"
  by (subst decimal.simps) simp

lemma digits_w_digits: "list_all is_digit (digits_w w n)"
proof (induction w n rule: digits_w.induct)
  case (1 w n)
  then show ?case
    by (subst digits_w.simps) (simp add: digit_is_digit)
qed

lemma length_digits_w: "length (digits_w w n) = w"
proof (induction w n rule: digits_w.induct)
  case (1 w n)
  then show ?case
    by (subst digits_w.simps) simp
qed

lemma fixed_point_parts:
  assumes "ip \<noteq> []" "list_all is_digit ip" "list_all is_digit fp" "length fp = p"
  shows "fixed_point p (ip @ ''.'' @ fp)" and "fixed_point p (''-'' @ ip @ ''.'' @ fp)"
proof -
  have tw: "takeWhile is_digit (ip @ CHR ''.'' # fp) = ip"
    using assms(2) by (simp add: list_all_iff)
  have dw: "dropWhile is_digit (ip @ CHR ''.'' # fp) = CHR ''.'' # fp"
    using assms(2) by (simp add: list_all_iff)
  have hd: "hd (ip @ CHR ''.'' # fp) \<noteq> CHR ''-''"
    using assms(1,2) by (cases ip) auto
  show "fixed_point p (ip @ ''.'' @ fp)"
    using assms tw dw hd by (simp add: fixed_point_def)
  show "fixed_point p (''-'' @ ip @ ''.'' @ fp)"
    using assms tw dw by (simp add: fixed_point_def)
qed

lemma format_f_finite:
  assumes "is_finite x" "0 < p"
  shows "fixed_point p (format_f p x)"
proof -
  have nan: "\<not> is_nan x"
    using assms(1) by (simp add: is_nan_def is_finite_def)
  show ?thesis
    using assms nan
      fixed_point_parts [OF decimal_not_empty decimal_digits digits_w_digits length_digits_w,
        of p "scaled p x div 10 ^ p" "scaled p x mod 10 ^ p"]
    by (simp add: format_f_def)
qed

lemma newline_not_in_digits: "list_all is_digit s \<Longrightarrow> newline \<notin> set s"
  by (auto simp: list_all_iff)

lemma newline_not_in_format_f: "newline \<notin> set (format_f p x)"
  using newline_not_in_digits [OF decimal_digits] newline_not_in_digits [OF digits_w_digits]
  by (simp add: format_f_def)

subsection \<open>The numeral denotes the number, rounded\<close>

lemma digit_value_digit: "k < 10 \<Longrightarrow> digit_value (digit k) = k"
  unfolding digit_def digit_value_def by (auto simp: eval_nat_numeral less_Suc_eq)

lemma numeral_value_snoc: "numeral_value (s @ [c]) = 10 * numeral_value s + digit_value c"
  by (simp add: numeral_value_def)

lemma numeral_value_decimal: "numeral_value (decimal n) = n"
proof (induction n rule: decimal.induct)
  case (1 n)
  show ?case
  proof (cases "n < 10")
    case True
    then show ?thesis
      by (subst decimal.simps) (simp add: numeral_value_def digit_value_digit)
  next
    case False
    with 1 show ?thesis
      by (subst decimal.simps) (simp add: numeral_value_snoc digit_value_digit)
  qed
qed

lemma numeral_value_digits_w:
  "numeral_value (s @ digits_w w m) = numeral_value s * 10 ^ w + m mod 10 ^ w"
proof (induction w m rule: digits_w.induct)
  case (1 w m)
  show ?case
  proof (cases "w = 0")
    case True
    then show ?thesis
      by (subst digits_w.simps) simp
  next
    case False
    then obtain w' where w: "w = Suc w'"
      by (cases w) auto
    have "numeral_value (s @ digits_w w m) =
        10 * numeral_value (s @ digits_w w' (m div 10)) + m mod 10"
      using numeral_value_snoc [of "s @ digits_w w' (m div 10)" "digit (m mod 10)"]
      by (subst digits_w.simps) (simp add: w digit_value_digit)
    also have "\<dots> = 10 * (numeral_value s * 10 ^ w' + m div 10 mod 10 ^ w') + m mod 10"
      using 1 False by (simp add: w)
    also have "\<dots> = numeral_value s * 10 ^ w + m mod 10 ^ w"
      by (simp add: w mod_mult2_eq algebra_simps)
    finally show ?thesis .
  qed
qed

lemma filter_digits: "list_all is_digit s \<Longrightarrow> filter is_digit s = s"
  by (induction s) simp_all

lemma scaled_value_format_f:
  assumes "is_finite x"
  shows "scaled_value (format_f p x) = scaled p x"
proof -
  have nan: "\<not> is_nan x"
    using assms by (simp add: is_nan_def is_finite_def)
  let ?n = "scaled p x"
  have "filter is_digit (format_f p x) =
      decimal (?n div 10 ^ p) @ (if p = 0 then [] else digits_w p (?n mod 10 ^ p))"
    using assms nan
    by (simp add: format_f_def filter_digits decimal_digits digits_w_digits)
  also have "numeral_value \<dots> = ?n"
  proof (cases "p = 0")
    case True
    then show ?thesis
      by (simp add: numeral_value_decimal)
  next
    case False
    then show ?thesis
      by (simp add: numeral_value_digits_w numeral_value_decimal div_mult_mod_eq)
  qed
  finally show ?thesis
    by (simp add: scaled_value_def)
qed

lemma minus_sign_format_f: "(hd (format_f p x) = CHR ''-'') = sign_bit x"
proof (cases "sign_bit x")
  case True
  then show ?thesis
    by (simp add: format_f_def)
next
  case False
  have "hd (decimal n @ s) \<noteq> CHR ''-''" for n s
    using decimal_digits [of n] decimal_not_empty [of n]
    by (cases "decimal n") auto
  with False show ?thesis
    by (simp add: format_f_def)
qed

lemma round_half_even_nearest:
  assumes "0 < d"
  shows "2 * \<bar>int (round_half_even n d) * int d - int n\<bar> \<le> int d"
proof -
  define q r where "q = n div d" and "r = n mod d"
  have n: "int n = int q * int d + int r"
    unfolding q_def r_def by (metis div_mult_mod_eq of_nat_add of_nat_mult)
  have r: "r < d"
    unfolding r_def using assms by simp
  show ?thesis
  proof (cases "d < 2 * r \<or> (2 * r = d \<and> odd q)")
    case True
    then have "round_half_even n d = q + 1"
      by (simp add: round_half_even_def q_def r_def Let_def)
    then have "int (round_half_even n d) * int d - int n = int d - int r"
      by (simp add: n algebra_simps)
    with True r show ?thesis
      by auto
  next
    case False
    then have "round_half_even n d = q"
      by (simp add: round_half_even_def q_def r_def Let_def)
    then have "int (round_half_even n d) * int d - int n = - int r"
      by (simp add: n)
    with False show ?thesis
      by auto
  qed
qed

lemma scaled_nearest_general:
  fixes k e :: nat
  assumes "s = (if k \<le> e then m * 2 ^ (e - k) * t else round_half_even (m * t) (2 ^ (k - e)))"
  shows "2 * \<bar>int s * 2 ^ k - int (m * 2 ^ e * t)\<bar> \<le> 2 ^ k"
proof (cases "k \<le> e")
  case True
  then have "(2::nat) ^ e = 2 ^ (e - k) * 2 ^ k"
    by (simp flip: power_add)
  then have "s * 2 ^ k = m * 2 ^ e * t"
    using True assms by simp
  then have "int s * 2 ^ k = int (m * 2 ^ e * t)"
    by (metis of_nat_mult of_nat_numeral of_nat_power)
  then show ?thesis
    by simp
next
  case False
  let ?d = "(2::nat) ^ (k - e)"
  have s: "s = round_half_even (m * t) ?d"
    using False assms by simp
  have "?d * 2 ^ e = 2 ^ k"
    using False by (simp flip: power_add)
  then have d: "int ?d * 2 ^ e = 2 ^ k"
    by (metis of_nat_mult of_nat_numeral of_nat_power)
  define X where "X = int s * int ?d - int (m * t)"
  have "2 * \<bar>X\<bar> \<le> int ?d"
    unfolding X_def s by (rule round_half_even_nearest) simp
  then have A: "2 * \<bar>X\<bar> * 2 ^ e \<le> int ?d * 2 ^ e"
    by (rule mult_right_mono) simp
  have "X * 2 ^ e = int s * (int ?d * 2 ^ e) - int (m * 2 ^ e * t)"
    by (simp add: X_def algebra_simps)
  then have C: "int s * 2 ^ k - int (m * 2 ^ e * t) = X * 2 ^ e"
    by (simp only: d)
  have "2 * \<bar>int s * 2 ^ k - int (m * 2 ^ e * t)\<bar> = 2 * \<bar>X * 2 ^ e\<bar>"
    by (simp only: C)
  also have "\<dots> = 2 * \<bar>X\<bar> * 2 ^ e"
    by (simp add: abs_mult)
  also have "\<dots> \<le> int ?d * 2 ^ e"
    by (rule A)
  also have "\<dots> = 2 ^ k"
    by (rule d)
  finally show ?thesis .
qed

lemma scaled_nearest:
  "2 * \<bar>int (scaled p x) * 2 ^ 1075 - int (significand x * 2 ^ exponent x * 10 ^ p)\<bar> \<le> 2 ^ 1075"
  by (rule scaled_nearest_general) (simp add: scaled_def)

lemma renders_format_f:
  assumes "is_finite x" "0 < p"
  shows "renders p x (format_f p x)"
  unfolding renders_def
  using format_f_finite [OF assms] minus_sign_format_f [of p x] scaled_nearest [of p x]
  by (simp add: scaled_value_format_f [OF assms(1)])

section \<open>Lines of the written text\<close>

lemma split_lines_line:
  "newline \<notin> set l \<Longrightarrow> split_lines cur (l @ newline # rest) = (cur @ l) # split_lines [] rest"
  by (induction l arbitrary: cur) auto

lemma lines_of_records:
  "(\<And>l. l \<in> set ls \<Longrightarrow> newline \<notin> set l) \<Longrightarrow>
   lines_of (concat (map (\<lambda>l. l @ [newline]) ls)) = ls"
  unfolding lines_of_def
proof (induction ls)
  case Nil
  then show ?case by simp
next
  case (Cons l ls)
  then show ?case
    using split_lines_line [of l "[]" "concat (map (\<lambda>l. l @ [newline]) ls)"] by simp
qed

lemma lines_of_written: "lines_of (written vs) = map (format_f 20) vs"
proof -
  have w: "written vs = concat (map (\<lambda>l. l @ [newline]) (map (format_f 20) vs))"
    by (simp add: written_def record_line_def [abs_def] comp_def)
  have nl: "newline \<notin> set l" if "l \<in> set (map (format_f 20) vs)" for l
    using that by (auto simp: newline_not_in_format_f)
  show ?thesis
    unfolding w by (rule lines_of_records) (rule nl)
qed

lemma written_append: "written (us @ vs) = written us @ written vs"
  by (simp add: written_def)

lemma fixed_point_lines:
  "list_all is_finite vs \<Longrightarrow> list_all (fixed_point 20) (map (format_f 20) vs)"
  by (induction vs) (simp_all add: format_f_finite)

lemma renders_lines:
  "list_all is_finite vs \<Longrightarrow> list_all2 (renders 20) vs (map (format_f 20) vs)"
  by (induction vs) (simp_all add: renders_format_f)

lemma rendering_format_f: "0 < p \<Longrightarrow> rendering p x (format_f p x)"
  using renders_format_f [of x p] by (auto simp: rendering_def format_f_def)

lemma rendering_lines: "list_all2 (rendering 20) vs (map (format_f 20) vs)"
  by (induction vs) (simp_all add: rendering_format_f)

section \<open>What a run does\<close>

lemma returned_simps [simp]: "returned (Returned s)" "\<not> returned (Undefined s)"
  by (simp_all add: returned_def)

lemma final_simps [simp]: "final (Returned s) = s" "final (Undefined s) = s"
  by (simp_all add: final_def)

lemma on_demand_calc_unfold:
  "on_demand_calc s0 =
     (let fp = fst (fopen volumedata_csv ''a'' s0);
          s2 = printf created (snd (fopen volumedata_csv ''a'' s0))
      in and_then
           (thread_loop_c (domains s0 1) (\<lambda>t. begin_c_loop t (cell_body fp t)) s2)
           (\<lambda>s3. and_then (fclose fp s3) (\<lambda>s4. Returned (printf closed s4))))"
  by (simp add: on_demand_calc_def cell_body_def [abs_def] created_def closed_def Get_Domain_def
      Let_def case_prod_beta)

subsection \<open>The file was opened\<close>

lemma cells_opened:
  assumes "p \<in> set (open_streams s)" "files s p = Some old" "\<forall>c\<in>set cs. c < length vs"
  shows "for_each cs (\<lambda>c s. cell_body (Some (Stream p)) (k, vs) c (record_event (Visit_cell k c) s)) s =
     Returned (s\<lparr>files := (files s)(p \<mapsto> old @ written (map ((!) vs) cs)),
                volume := last (volume s # map ((!) vs) cs),
                vol_tot := foldl fadd (vol_tot s) (map ((!) vs) cs),
                trace := trace s @ cell_events (Some (Stream p)) k vs cs\<rparr>)"
  using assms
proof (induction cs arbitrary: s old)
  case Nil
  then have "(files s)(p \<mapsto> old) = files s"
    by (simp add: fun_upd_idem)
  then show ?case
    by (simp add: written_def cell_events_def)
next
  case (Cons c cs)
  let ?s1 = "s\<lparr>files := (files s)(p \<mapsto> old @ record_line (vs ! c)),
                volume := vs ! c,
                vol_tot := fadd (vol_tot s) (vs ! c),
                trace := trace s @ [Visit_cell k c, Call_fprintf (Some (Stream p)) (record_line (vs ! c))]\<rparr>"
  have step: "cell_body (Some (Stream p)) (k, vs) c (record_event (Visit_cell k c) s) = Returned ?s1"
    using Cons.prems
    by (simp add: cell_body_def C_VOLUME_def fprintf_def and_then_def record_event_def
        contents_def record_line_def)
  let ?body = "\<lambda>c s. cell_body (Some (Stream p)) (k, vs) c (record_event (Visit_cell k c) s)"
  have "for_each (c # cs) ?body s = for_each cs ?body ?s1"
    using step by (simp add: and_then_def)
  also have "\<dots> =
     Returned (?s1\<lparr>files := (files ?s1)(p \<mapsto> (old @ record_line (vs ! c)) @ written (map ((!) vs) cs)),
                volume := last (volume ?s1 # map ((!) vs) cs),
                vol_tot := foldl fadd (vol_tot ?s1) (map ((!) vs) cs),
                trace := trace ?s1 @ cell_events (Some (Stream p)) k vs cs\<rparr>)"
    using Cons.prems by (intro Cons.IH) simp_all
  also have "\<dots> =
     Returned (s\<lparr>files := (files s)(p \<mapsto> old @ written (map ((!) vs) (c # cs))),
                volume := last (volume s # map ((!) vs) (c # cs)),
                vol_tot := foldl fadd (vol_tot s) (map ((!) vs) (c # cs)),
                trace := trace s @ cell_events (Some (Stream p)) k vs (c # cs)\<rparr>)"
    by (simp add: written_def cell_events_def)
  finally show ?case .
qed

lemma threads_opened:
  assumes "p \<in> set (open_streams s)" "files s p = Some old"
  shows "for_each ts (\<lambda>t s. begin_c_loop t (cell_body (Some (Stream p)) t)
            (record_event (Visit_thread (fst t)) s)) s =
     Returned (s\<lparr>files := (files s)(p \<mapsto> old @ written (concat (map snd ts))),
                volume := last (volume s # concat (map snd ts)),
                vol_tot := foldl fadd (vol_tot s) (concat (map snd ts)),
                trace := trace s @ loop_events (Some (Stream p)) ts\<rparr>)"
  using assms
proof (induction ts arbitrary: s old)
  case Nil
  then have "(files s)(p \<mapsto> old) = files s"
    by (simp add: fun_upd_idem)
  then show ?case
    by (simp add: written_def loop_events_def)
next
  case (Cons t ts)
  obtain k vs where t: "t = (k, vs)"
    by (cases t)
  let ?body = "\<lambda>t s. begin_c_loop t (cell_body (Some (Stream p)) t)
            (record_event (Visit_thread (fst t)) s)"
  let ?s0 = "record_event (Visit_thread k) s"
  let ?s1 = "s\<lparr>files := (files s)(p \<mapsto> old @ written vs),
                volume := last (volume s # vs),
                vol_tot := foldl fadd (vol_tot s) vs,
                trace := trace s @ thread_events (Some (Stream p)) (k, vs)\<rparr>"
  have "begin_c_loop t (cell_body (Some (Stream p)) t) ?s0 =
     Returned (?s0\<lparr>files := (files ?s0)(p \<mapsto> old @ written (map ((!) vs) [0..<length vs])),
                volume := last (volume ?s0 # map ((!) vs) [0..<length vs]),
                vol_tot := foldl fadd (vol_tot ?s0) (map ((!) vs) [0..<length vs]),
                trace := trace ?s0 @ cell_events (Some (Stream p)) k vs [0..<length vs]\<rparr>)"
    unfolding begin_c_loop_def t fst_conv snd_conv
    using Cons.prems by (intro cells_opened) (simp_all add: record_event_def)
  also have "\<dots> = Returned ?s1"
    by (simp add: map_nth record_event_def thread_events_def)
  finally have step: "?body t s = Returned ?s1"
    by (simp add: t)
  have "for_each (t # ts) ?body s = for_each ts ?body ?s1"
    using step by (simp add: and_then_def)
  also have "\<dots> =
     Returned (?s1\<lparr>files := (files ?s1)(p \<mapsto> (old @ written vs) @ written (concat (map snd ts))),
                volume := last (volume ?s1 # concat (map snd ts)),
                vol_tot := foldl fadd (vol_tot ?s1) (concat (map snd ts)),
                trace := trace ?s1 @ loop_events (Some (Stream p)) ts\<rparr>)"
    using Cons.prems by (intro Cons.IH) simp_all
  also have "\<dots> =
     Returned (s\<lparr>files := (files s)(p \<mapsto> old @ written (concat (map snd (t # ts)))),
                volume := last (volume s # concat (map snd (t # ts))),
                vol_tot := foldl fadd (vol_tot s) (concat (map snd (t # ts))),
                trace := trace s @ loop_events (Some (Stream p)) (t # ts)\<rparr>)"
    by (simp add: written_def loop_events_def t)
  finally show ?case .
qed

lemma on_demand_calc_opened:
  assumes "can_open s volumedata_csv"
  shows "on_demand_calc s =
     Returned (s\<lparr>files := (files s)(volumedata_csv \<mapsto>
                  contents s volumedata_csv @ written (concat (domains s 1))),
                stdout_buffer :=
                  (if stdout_buffered s then stdout_buffer s @ created @ closed else []),
                console :=
                  (if stdout_buffered s then console s
                   else console s @ stdout_buffer s @ created @ closed),
                volume := last (volume s # concat (domains s 1)),
                vol_tot := foldl fadd (vol_tot s) (concat (domains s 1)),
                trace := trace s @ run_events (domains s 1)\<rparr>)"
proof -
  let ?p = volumedata_csv
  let ?fp = "Some (Stream ?p)"
  let ?s2 = "s\<lparr>files := (files s)(?p \<mapsto> contents s ?p),
               open_streams := ?p # open_streams s,
               stdout_buffer := (if stdout_buffered s then stdout_buffer s @ created else []),
               console :=
                 (if stdout_buffered s then console s else console s @ stdout_buffer s @ created),
               trace := trace s @ [Call_fopen ?p ''a'' ?fp, Call_printf created]\<rparr>"
  have op: "fst (fopen ?p ''a'' s) = ?fp" "printf created (snd (fopen ?p ''a'' s)) = ?s2"
    using assms by (simp_all add: fopen_def printf_def record_event_def)
  have loop: "thread_loop_c (domains s 1) (\<lambda>t. begin_c_loop t (cell_body ?fp t)) ?s2 =
     Returned (?s2\<lparr>files := (files ?s2)(?p \<mapsto> contents s ?p @ written (concat (map snd (enumerate 0 (domains s 1))))),
                volume := last (volume ?s2 # concat (map snd (enumerate 0 (domains s 1)))),
                vol_tot := foldl fadd (vol_tot ?s2) (concat (map snd (enumerate 0 (domains s 1)))),
                trace := trace ?s2 @ loop_events ?fp (enumerate 0 (domains s 1))\<rparr>)"
    unfolding thread_loop_c_def by (intro threads_opened) simp_all
  show ?thesis
    unfolding on_demand_calc_unfold Let_def op loop
    by (simp add: and_then_def fclose_def printf_def record_event_def run_events_def)
qed

lemma opened:
  assumes "can_open s volumedata_csv"
  shows "returned (on_demand_calc s)"
    and "files (final (on_demand_calc s)) =
      (files s)(volumedata_csv \<mapsto> contents s volumedata_csv @ written (concat (domains s 1)))"
    and "contents (final (on_demand_calc s)) volumedata_csv =
      contents s volumedata_csv @ written (concat (domains s 1))"
    and "console (final (on_demand_calc s)) =
      (if stdout_buffered s then console s else console s @ stdout_buffer s @ created @ closed)"
    and "can_open (final (on_demand_calc s)) = can_open s"
    and "open_streams (final (on_demand_calc s)) = open_streams s"
    and "domains (final (on_demand_calc s)) = domains s"
    and "vol_tot (final (on_demand_calc s)) = foldl fadd (vol_tot s) (concat (domains s 1))"
    and "events_since s (final (on_demand_calc s)) = run_events (domains s 1)"
    and "stdout_buffer (final (on_demand_calc s)) =
      (if stdout_buffered s then stdout_buffer s @ created @ closed else [])"
    and "stdout_buffered (final (on_demand_calc s)) = stdout_buffered s"
  unfolding on_demand_calc_opened [OF assms]
  by (simp_all add: contents_def events_since_def)

subsection \<open>The file was not opened\<close>

lemma cells_null:
  "begin_c_loop (k, vs) (cell_body None (k, vs)) s =
     (case vs of
        [] \<Rightarrow> Returned s
      | v # _ \<Rightarrow> Undefined (s\<lparr>volume := v,
          trace := trace s @ [Visit_cell k 0, Call_fprintf None (record_line v)]\<rparr>))"
proof (cases vs)
  case Nil
  then show ?thesis
    by (simp add: begin_c_loop_def)
next
  case (Cons v vs')
  have idx: "[0..<length (v # vs')] = 0 # [Suc 0..<length (v # vs')]"
    by (simp add: upt_conv_Cons del: upt_Suc)
  show ?thesis
    unfolding begin_c_loop_def snd_conv Cons idx
    by (simp add: cell_body_def C_VOLUME_def fprintf_def and_then_def record_event_def
        record_line_def del: upt_Suc)
qed

lemma threads_null:
  "\<exists>s' evs. untouched s s' evs \<and> evs = null_visits ts \<and>
     (case concat (map snd ts) of
        [] \<Rightarrow>
          for_each ts (\<lambda>t s. begin_c_loop t (cell_body None t)
            (record_event (Visit_thread (fst t)) s)) s = Returned s' \<and>
          library_calls evs = []
      | v # _ \<Rightarrow>
          for_each ts (\<lambda>t s. begin_c_loop t (cell_body None t)
            (record_event (Visit_thread (fst t)) s)) s = Undefined s' \<and>
          library_calls evs = [Call_fprintf None (record_line v)])"
proof (induction ts arbitrary: s)
  case Nil
  show ?case
    by (rule exI [of _ s], rule exI [of _ "[]"]) (simp add: untouched_def library_calls_def)
next
  case (Cons t ts)
  let ?body = "\<lambda>t s. begin_c_loop t (cell_body None t) (record_event (Visit_thread (fst t)) s)"
  obtain k vs where t: "t = (k, vs)"
    by (cases t)
  show ?case
  proof (cases vs)
    case Nil
    let ?s0 = "record_event (Visit_thread k) s"
    have step: "?body t s = Returned ?s0"
      using Nil by (simp add: t cells_null)
    from Cons.IH [of ?s0] obtain s' evs where
      u: "untouched ?s0 s' evs" and
      e: "evs = null_visits ts" and
      r: "case concat (map snd ts) of
            [] \<Rightarrow> for_each ts ?body ?s0 = Returned s' \<and> library_calls evs = []
          | v # _ \<Rightarrow> for_each ts ?body ?s0 = Undefined s' \<and>
              library_calls evs = [Call_fprintf None (record_line v)]"
      by blast
    have u': "untouched s s' (Visit_thread k # evs)"
      using u by (simp add: untouched_def record_event_def)
    have r': "case concat (map snd (t # ts)) of
            [] \<Rightarrow> for_each (t # ts) ?body s = Returned s' \<and>
              library_calls (Visit_thread k # evs) = []
          | v # _ \<Rightarrow> for_each (t # ts) ?body s = Undefined s' \<and>
              library_calls (Visit_thread k # evs) = [Call_fprintf None (record_line v)]"
    proof -
      have cc: "concat (map snd (t # ts)) = concat (map snd ts)"
        using Nil by (simp add: t)
      have fe: "for_each (t # ts) ?body s = for_each ts ?body ?s0"
        using step by (simp add: and_then_def)
      have lc: "library_calls (Visit_thread k # evs) = library_calls evs"
        by (simp add: library_calls_def)
      show ?thesis
        unfolding cc fe lc by (rule r)
    qed
    have e': "Visit_thread k # evs = null_visits (t # ts)"
      using e Nil by (simp add: t)
    from u' e' r' show ?thesis
      by blast
  next
    case (Cons v vs')
    let ?evs = "[Visit_thread k, Visit_cell k 0, Call_fprintf None (record_line v)]"
    let ?s1 = "s\<lparr>volume := v, trace := trace s @ ?evs\<rparr>"
    have step: "?body t s = Undefined ?s1"
      using Cons by (simp add: t cells_null record_event_def)
    have "untouched s ?s1 ?evs"
      by (simp add: untouched_def)
    moreover have "for_each (t # ts) ?body s = Undefined ?s1 \<and>
        library_calls ?evs = [Call_fprintf None (record_line v)]"
      using step by (simp add: and_then_def library_calls_def)
    ultimately show ?thesis
      using Cons by (intro exI [of _ ?s1] exI [of _ ?evs]) (simp add: t)
  qed
qed

lemma on_demand_calc_not_opened:
  assumes "\<not> can_open s volumedata_csv"
  shows "\<exists>s'. on_demand_calc s = Undefined s' \<and>
     files s' = files s \<and> can_open s' = can_open s \<and> open_streams s' = open_streams s \<and>
     domains s' = domains s \<and> vol_tot s' = vol_tot s \<and>
     console s' =
       (if stdout_buffered s then console s else console s @ stdout_buffer s @ created) \<and>
     stdout_buffer s' = (if stdout_buffered s then stdout_buffer s @ created else []) \<and>
     stdout_buffered s' = stdout_buffered s \<and>
     library_calls (events_since s s') =
       [Call_fopen volumedata_csv ''a'' None, Call_printf created,
        (case concat (domains s 1) of
           [] \<Rightarrow> Call_fclose None
         | v # _ \<Rightarrow> Call_fprintf None (record_line v))] \<and>
     events_since s s' =
       [Call_fopen volumedata_csv ''a'' None, Call_printf created] @
       null_visits (enumerate 0 (domains s 1)) @
       (if concat (domains s 1) = [] then [Call_fclose None] else [])"
proof -
  let ?p = volumedata_csv
  let ?s2 = "s\<lparr>stdout_buffer := (if stdout_buffered s then stdout_buffer s @ created else []),
               console :=
                 (if stdout_buffered s then console s else console s @ stdout_buffer s @ created),
               trace := trace s @ [Call_fopen ?p ''a'' None, Call_printf created]\<rparr>"
  let ?ts = "enumerate 0 (domains s 1)"
  let ?loop = "for_each ?ts (\<lambda>t s. begin_c_loop t (cell_body None t)
            (record_event (Visit_thread (fst t)) s))"
  have op: "fst (fopen ?p ''a'' s) = None" "printf created (snd (fopen ?p ''a'' s)) = ?s2"
    using assms by (simp_all add: fopen_def printf_def record_event_def)
  have run: "on_demand_calc s =
      and_then (?loop ?s2) (\<lambda>s3. and_then (fclose None s3) (\<lambda>s4. Returned (printf closed s4)))"
    unfolding on_demand_calc_unfold Let_def op thread_loop_c_def ..
  from threads_null [of ?s2 ?ts] obtain s' evs where
    u: "untouched ?s2 s' evs" and
    e: "evs = null_visits ?ts" and
    r: "case concat (map snd ?ts) of
          [] \<Rightarrow> ?loop ?s2 = Returned s' \<and> library_calls evs = []
        | v # _ \<Rightarrow> ?loop ?s2 = Undefined s' \<and>
            library_calls evs = [Call_fprintf None (record_line v)]"
    by blast
  show ?thesis
  proof (cases "concat (domains s 1)")
    case Nil
    with r have loop: "?loop ?s2 = Returned s'" and evs: "library_calls evs = []"
      by simp_all
    let ?s3 = "record_event (Call_fclose None) s'"
    have "on_demand_calc s = Undefined ?s3"
      unfolding run loop by (simp add: and_then_def fclose_def)
    moreover have "(case concat (domains s 1) of
           [] \<Rightarrow> Call_fclose None
         | v # _ \<Rightarrow> Call_fprintf None (record_line v)) = Call_fclose None"
      by (simp only: Nil list.case)
    moreover have "(if concat (domains s 1) = [] then [Call_fclose None] else []) =
        [Call_fclose None]"
      by (simp only: Nil simp_thms if_True)
    ultimately show ?thesis
      using u evs e
      by (intro exI [of _ ?s3])
        (simp add: untouched_def record_event_def events_since_def library_calls_def)
  next
    case (Cons v vs)
    with r have loop: "?loop ?s2 = Undefined s'"
      and evs: "library_calls evs = [Call_fprintf None (record_line v)]"
      by simp_all
    have "on_demand_calc s = Undefined s'"
      unfolding run loop by (simp add: and_then_def)
    moreover have "(case concat (domains s 1) of
           [] \<Rightarrow> Call_fclose None
         | v # _ \<Rightarrow> Call_fprintf None (record_line v)) = Call_fprintf None (record_line v)"
      by (simp only: Cons list.case)
    moreover have "(if concat (domains s 1) = [] then [Call_fclose None] else []) = []"
      by (simp only: Cons list.distinct if_False)
    ultimately show ?thesis
      using u evs e
      by (intro exI [of _ s'])
        (simp add: untouched_def events_since_def library_calls_def)
  qed
qed

lemma not_opened:
  assumes "\<not> can_open s volumedata_csv"
  shows "\<not> returned (on_demand_calc s)"
    and "files (final (on_demand_calc s)) = files s"
    and "console (final (on_demand_calc s)) =
      (if stdout_buffered s then console s else console s @ stdout_buffer s @ created)"
    and "can_open (final (on_demand_calc s)) = can_open s"
    and "open_streams (final (on_demand_calc s)) = open_streams s"
    and "domains (final (on_demand_calc s)) = domains s"
    and "vol_tot (final (on_demand_calc s)) = vol_tot s"
    and "library_calls (events_since s (final (on_demand_calc s))) =
       [Call_fopen volumedata_csv ''a'' None, Call_printf created,
        (case concat (domains s 1) of
           [] \<Rightarrow> Call_fclose None
         | v # _ \<Rightarrow> Call_fprintf None (record_line v))]"
    and "stdout_buffer (final (on_demand_calc s)) =
      (if stdout_buffered s then stdout_buffer s @ created else [])"
    and "stdout_buffered (final (on_demand_calc s)) = stdout_buffered s"
    and "events_since s (final (on_demand_calc s)) =
       [Call_fopen volumedata_csv ''a'' None, Call_printf created] @
       null_visits (enumerate 0 (domains s 1)) @
       (if concat (domains s 1) = [] then [Call_fclose None] else [])"
  using on_demand_calc_not_opened [OF assms] by auto

subsection \<open>The history of a run\<close>

lemma thread_visits_append: "thread_visits (xs @ ys) = thread_visits xs @ thread_visits ys"
  by (induction xs rule: thread_visits.induct) simp_all

lemma cell_visits_append: "cell_visits (xs @ ys) = cell_visits xs @ cell_visits ys"
  by (induction xs rule: cell_visits.induct) simp_all

lemma library_calls_simps:
  "library_calls [] = []"
  "library_calls (e # evs) = (if is_call e then e # library_calls evs else library_calls evs)"
  by (simp_all add: library_calls_def)

lemma library_calls_append: "library_calls (xs @ ys) = library_calls xs @ library_calls ys"
  by (simp add: library_calls_def)

lemma cell_events_projections:
  "thread_visits (cell_events fp k vs cs) = []"
  "cell_visits (cell_events fp k vs cs) = map (Pair k) cs"
  "library_calls (cell_events fp k vs cs) = map (\<lambda>c. Call_fprintf fp (record_line (vs ! c))) cs"
  by (induction cs) (simp_all add: cell_events_def library_calls_def)

lemma thread_events_projections:
  "thread_visits (thread_events fp t) = [fst t]"
  "cell_visits (thread_events fp t) = map (Pair (fst t)) [0..<length (snd t)]"
  "library_calls (thread_events fp t) = map (\<lambda>v. Call_fprintf fp (record_line v)) (snd t)"
proof -
  have "map (\<lambda>c. Call_fprintf fp (record_line (snd t ! c))) [0..<length (snd t)] =
      map (\<lambda>v. Call_fprintf fp (record_line v)) (map ((!) (snd t)) [0..<length (snd t)])"
    by (simp add: comp_def)
  then show "library_calls (thread_events fp t) = map (\<lambda>v. Call_fprintf fp (record_line v)) (snd t)"
    by (simp add: thread_events_def library_calls_def map_nth
        cell_events_projections [unfolded library_calls_def])
qed (simp_all add: thread_events_def cell_events_projections)

lemma loop_events_projections:
  "thread_visits (loop_events fp ts) = map fst ts"
  "cell_visits (loop_events fp ts) = concat (map (\<lambda>t. map (Pair (fst t)) [0..<length (snd t)]) ts)"
  "library_calls (loop_events fp ts) =
     map (\<lambda>v. Call_fprintf fp (record_line v)) (concat (map snd ts))"
  by (induction ts)
    (simp_all add: loop_events_def thread_visits_append cell_visits_append library_calls_append
      thread_events_projections library_calls_def [of "[]"])

lemma run_events_projections:
  "thread_visits (run_events d) = [0..<length d]"
  "cell_visits (run_events d) = cells_of d"
  "library_calls (run_events d) =
     [Call_fopen volumedata_csv ''a'' (Some (Stream volumedata_csv)), Call_printf created] @
     map (\<lambda>v. Call_fprintf (Some (Stream volumedata_csv)) (record_line v)) (concat d) @
     [Call_fclose (Some (Stream volumedata_csv)), Call_printf closed]"
  by (simp_all add: run_events_def thread_visits_append cell_visits_append library_calls_append
      loop_events_projections cells_of_def library_calls_simps)

lemma distinct_cells:
  "distinct (map fst ts) \<Longrightarrow>
   distinct (concat (map (\<lambda>t. map (Pair (fst t)) [0..<length (snd t)]) ts))"
  by (induction ts) (auto simp: distinct_map inj_on_def)

lemma distinct_cells_of: "distinct (cells_of d)"
  unfolding cells_of_def by (rule distinct_cells) simp

lemma set_cells_of: "set (cells_of d) = {(k, c). k < length d \<and> c < length (d ! k)}"
proof (intro set_eqI iffI; clarify)
  fix k c
  assume "(k, c) \<in> set (cells_of d)"
  then show "k < length d \<and> c < length (d ! k)"
    by (auto simp: cells_of_def in_set_enumerate_eq)
next
  fix k c
  assume k: "k < length d" and c: "c < length (d ! k)"
  from k have "(k, d ! k) \<in> set (enumerate 0 d)"
    by (simp add: in_set_enumerate_eq)
  with c show "(k, c) \<in> set (cells_of d)"
    by (force simp: cells_of_def)
qed

subsection \<open>Evaluation\<close>

lemmas fp_eval = format_f_def sign_bit_def is_nan_def is_finite_def exponent_bits_def
  mantissa_bits_def significand_def exponent_def scaled_def round_half_even_def
  decimal.simps digits_w.simps digit_def Let_def fadd_def normalise_def pack_def quiet_def
  bitlen.simps

lemma example_simps [simp]:
  "files (example ok old d junk) = (\<lambda>p. if p = volumedata_csv then old else None)"
  "can_open (example ok old d junk) p = ok"
  "open_streams (example ok old d junk) = []"
  "console (example ok old d junk) = []"
  "stdout_buffer (example ok old d junk) = []"
  "stdout_buffered (example ok old d junk)"
  "domains (example ok old d junk) 1 = d"
  "vol_tot (example ok old d junk) = junk"
  "trace (example ok old d junk) = []"
  by (simp_all add: example_def)

text \<open>
  The doubles \<open>1.0\<close>, \<open>0.1\<close>, \<open>0.2\<close>, \<open>5.0\<close>, \<open>6.0\<close>, \<open>+\<infinity>\<close>, \<open>-\<infinity>\<close> and a NaN: what
  \<open>%.20f\<close> writes for them, \<open>5.0 + 1.0 = 6.0\<close>, and \<open>0.1 + 0.2\<close>, which is the double
  \<open>0.30000000000000004\<close>.
\<close>

lemma format_f_one: "format_f 20 0x3FF0000000000000 = ''1.00000000000000000000''"
  by (simp add: fp_eval)

lemma format_f_tenth: "format_f 20 0x3FB999999999999A = ''0.10000000000000000555''"
  by (simp add: fp_eval)

lemma format_f_infinity: "format_f 20 0x7FF0000000000000 = ''inf''"
  by (simp add: fp_eval)

lemma format_f_minus_infinity: "format_f 20 0xFFF0000000000000 = ''-inf''"
  by (simp add: fp_eval)

lemma format_f_nan: "format_f 20 0x7FF8000000000000 = ''nan''"
  by (simp add: fp_eval)

lemma fadd_five_one: "fadd 0x4014000000000000 0x3FF0000000000000 = 0x4018000000000000"
  by (simp add: fp_eval)

lemma fadd_tenth_fifth: "fadd 0x3FB999999999999A 0x3FC999999999999A = 0x3FD3333333333334"
  by (simp add: fp_eval)

lemma is_finite_examples:
  "is_finite 0x3FF0000000000000" "is_finite 0x3FB999999999999A" "\<not> is_finite 0x7FF0000000000000"
  by (simp_all add: is_finite_def exponent_bits_def)

section \<open>The claims\<close>

text \<open>
  In what follows the routine runs in a state \<open>s\<close>; \<open>Get_Domain 1 s\<close> is the domain it
  traverses and \<open>concat (Get_Domain 1 s)\<close> the volumes of its cells in the order of the
  traversal. The run came back when \<open>returned (on_demand_calc s)\<close> holds, and
  \<open>final (on_demand_calc s)\<close> is the state it ended in. Every loop of the model is a
  structural recursion over a list, so a run always ends: it returns, or it reaches a call
  whose behaviour C leaves undefined.

  The routine never tests the result of \<open>fopen\<close>. When the file does not open, the next
  call on the stream gets the null pointer and the run ends there; C1, C3, C5, C7 and C8
  all meet this one omission.
\<close>

subsection \<open>C1: one line per cell\<close>

text \<open>
  C1, as amended. When the output file opens, a run appends exactly the records of the
  cell volumes, in the order of the traversal: for \<open>N\<close> cells that is \<open>N\<close> lines, each the
  \<open>%.20f\<close> conversion of its cell's volume and ended by a newline. The line of a finite
  volume is a fixed-point numeral with exactly 20 digits after the decimal point, with the
  volume's sign and the volume's value rounded at the twentieth digit; the line of an
  infinite volume is \<open>inf\<close> or \<open>-inf\<close>, that of a NaN \<open>nan\<close> or \<open>-nan\<close>. The appended text
  is \<open>written\<close> of the volumes and nothing more: no header, footer, total or delimiter
  between threads.
\<close>

theorem volume_lines:
  assumes "can_open s volumedata_csv"
  shows "returned (on_demand_calc s) \<and>
    contents (final (on_demand_calc s)) volumedata_csv =
      contents s volumedata_csv @ written (concat (Get_Domain 1 s)) \<and>
    lines_of (written (concat (Get_Domain 1 s))) = map (format_f 20) (concat (Get_Domain 1 s)) \<and>
    length (lines_of (written (concat (Get_Domain 1 s)))) = length (concat (Get_Domain 1 s)) \<and>
    list_all2 (rendering 20) (concat (Get_Domain 1 s))
      (lines_of (written (concat (Get_Domain 1 s))))"
  using opened(1,3) [OF assms] rendering_lines [of "concat (domains s 1)"]
  by (simp add: lines_of_written Get_Domain_def)

theorem volume_lines_witness:
  "contents (final (on_demand_calc
      (example True (Some ''x'') [[0x3FF0000000000000], [], [0xFFF0000000000000, 0x3FB999999999999A]] 7)))
      volumedata_csv =
    ''x1.00000000000000000000'' @ [newline] @ ''-inf'' @ [newline] @
    ''0.10000000000000000555'' @ [newline] \<and>
   lines_of (written [0x3FF0000000000000, 0xFFF0000000000000, 0x3FB999999999999A]) =
     [''1.00000000000000000000'', ''-inf'', ''0.10000000000000000555'']"
  using volume_lines
    [of "example True (Some ''x'') [[0x3FF0000000000000], [], [0xFFF0000000000000, 0x3FB999999999999A]] 7"]
  by (simp add: Get_Domain_def contents_def written_def record_line_def format_f_one
      format_f_tenth format_f_minus_infinity)

text \<open>
  C1 as stated fails in two ways. The routine writes whatever \<open>C_VOLUME\<close> yields: the line
  of a cell whose volume is \<open>+\<infinity>\<close> reads \<open>inf\<close>, with no decimal point and no digit. And it
  writes nothing when the file does not open: with one cell of volume \<open>1.0\<close> the run ends
  in \<open>fprintf\<close> on the null pointer and the file stays as it was, missing, where the claim
  has one line.
\<close>

theorem volume_lines_fail:
  "returned (on_demand_calc (example True None [[0x7FF0000000000000]] 0)) \<and>
   contents (final (on_demand_calc (example True None [[0x7FF0000000000000]] 0))) volumedata_csv =
     ''inf'' @ [newline] \<and>
   lines_of (contents (final (on_demand_calc (example True None [[0x7FF0000000000000]] 0)))
     volumedata_csv) = [''inf''] \<and>
   \<not> list_all (fixed_point 20)
     (lines_of (contents (final (on_demand_calc (example True None [[0x7FF0000000000000]] 0)))
        volumedata_csv)) \<and>
   \<not> returned (on_demand_calc (example False None [[0x3FF0000000000000]] 0)) \<and>
   files (final (on_demand_calc (example False None [[0x3FF0000000000000]] 0))) volumedata_csv =
     None \<and>
   lines_of (contents (final (on_demand_calc (example False None [[0x3FF0000000000000]] 0)))
     volumedata_csv) = []"
  using opened(1,3) [of "example True None [[0x7FF0000000000000]] 0"]
    not_opened(1,2) [of "example False None [[0x3FF0000000000000]] 0"]
  by (simp add: contents_def written_def record_line_def lines_of_def fixed_point_def
      is_digit_def format_f_infinity)

subsection \<open>C2: the accumulated total\<close>

text \<open>
  C2 says that \<open>vol_tot\<close> ends as the sum of the volumes written. The routine adds every
  volume to \<open>vol_tot\<close> but never sets it before the loop (lemma \<open>opened\<close>: it ends as
  the volumes added to whatever it held at entry). With one cell of volume \<open>1.0\<close> and
  \<open>5.0\<close> found in \<open>vol_tot\<close> at entry, the one line written is \<open>1.00000000000000000000\<close>
  and \<open>vol_tot\<close> ends as \<open>6.0\<close>, not \<open>1.0\<close>.
\<close>

theorem uninitialised_total:
  "returned (on_demand_calc (example True None [[0x3FF0000000000000]] 0x4014000000000000)) \<and>
   contents (final (on_demand_calc (example True None [[0x3FF0000000000000]] 0x4014000000000000)))
     volumedata_csv = ''1.00000000000000000000'' @ [newline] \<and>
   vol_tot (final (on_demand_calc (example True None [[0x3FF0000000000000]] 0x4014000000000000))) =
     0x4018000000000000 \<and>
   sum_volumes (concat (Get_Domain 1 (example True None [[0x3FF0000000000000]] 0x4014000000000000))) =
     0x3FF0000000000000"
  using opened(1,3,8) [of "example True None [[0x3FF0000000000000]] 0x4014000000000000"]
  by (simp add: contents_def written_def record_line_def sum_volumes_def Get_Domain_def
      format_f_one fadd_five_one)

subsection \<open>C3: a failed open is not checked\<close>




subsection \<open>C4: the file is appended to\<close>

text \<open>
  C4. When the file opens, what it held stays as a prefix of what it holds after a run,
  and a second run on the same domain (whatever its two variables hold at entry) appends
  the same text again: the two runs add twice the lines of one.
\<close>

theorem appends_not_overwrites:
  assumes "can_open s volumedata_csv"
  shows "returned (on_demand_calc s) \<and>
    returned (on_demand_calc ((final (on_demand_calc s))\<lparr>volume := a, vol_tot := b\<rparr>)) \<and>
    prefix (contents s volumedata_csv) (contents (final (on_demand_calc s)) volumedata_csv) \<and>
    contents (final (on_demand_calc s)) volumedata_csv =
      contents s volumedata_csv @ written (concat (Get_Domain 1 s)) \<and>
    contents (final (on_demand_calc ((final (on_demand_calc s))\<lparr>volume := a, vol_tot := b\<rparr>)))
        volumedata_csv =
      contents s volumedata_csv @ written (concat (Get_Domain 1 s)) @
        written (concat (Get_Domain 1 s)) \<and>
    length (lines_of (written (concat (Get_Domain 1 s)) @ written (concat (Get_Domain 1 s)))) =
      2 * length (lines_of (written (concat (Get_Domain 1 s))))"
proof -
  let ?s1 = "(final (on_demand_calc s))\<lparr>volume := a, vol_tot := b\<rparr>"
  have again: "can_open ?s1 volumedata_csv"
    using opened(5) [OF assms] assms by simp
  have same: "domains ?s1 1 = domains s 1" "contents ?s1 volumedata_csv =
      contents s volumedata_csv @ written (concat (domains s 1))"
    using opened(3,7) [OF assms] by (simp_all add: contents_def)
  have "length (lines_of (written (concat (domains s 1) @ concat (domains s 1)))) =
      2 * length (lines_of (written (concat (domains s 1))))"
    by (simp add: lines_of_written)
  then show ?thesis
    using opened(1,3) [OF assms] opened(1,3) [OF again] same
    by (simp add: Get_Domain_def written_append)
qed

theorem appends_not_overwrites_witness:
  "contents (final (on_demand_calc (example True (Some ''old'') [[0x3FF0000000000000]] 0)))
     volumedata_csv = ''old1.00000000000000000000'' @ [newline] \<and>
   contents (final (on_demand_calc
      ((final (on_demand_calc (example True (Some ''old'') [[0x3FF0000000000000]] 0)))
        \<lparr>volume := 5, vol_tot := 6\<rparr>))) volumedata_csv =
     ''old1.00000000000000000000'' @ [newline] @ ''1.00000000000000000000'' @ [newline]"
  using appends_not_overwrites
    [where s = "example True (Some ''old'') [[0x3FF0000000000000]] 0" and a = 5 and b = 6]
  by (simp add: Get_Domain_def contents_def written_def record_line_def format_f_one)

subsection \<open>C5: a domain without cells\<close>

text \<open>
  C5, as amended. When the domain has no cell (no thread, or empty threads only) and the
  file opens, the run opens the file, writes nothing to it and closes it: the library
  calls are \<open>fopen\<close>, \<open>printf\<close>, \<open>fclose\<close>, \<open>printf\<close>, the file exists afterwards with the
  content it had (none when it was missing), and no stream is left open.
\<close>

theorem no_cells_no_lines:
  assumes "can_open s volumedata_csv"
    and "concat (Get_Domain 1 s) = []"
  shows "returned (on_demand_calc s) \<and>
    files (final (on_demand_calc s)) volumedata_csv = Some (contents s volumedata_csv) \<and>
    contents (final (on_demand_calc s)) volumedata_csv = contents s volumedata_csv \<and>
    open_streams (final (on_demand_calc s)) = open_streams s \<and>
    library_calls (events_since s (final (on_demand_calc s))) =
      [Call_fopen volumedata_csv ''a'' (Some (Stream volumedata_csv)),
       Call_printf (''File created'' @ [newline]),
       Call_fclose (Some (Stream volumedata_csv)),
       Call_printf (''File closed'' @ [newline])]"
proof -
  have "concat (domains s 1) = []"
    using assms(2) by (simp add: Get_Domain_def)
  then show ?thesis
    using opened(1,2,3,6,9) [OF assms(1)]
    by (simp only: run_events_projections) (simp add: written_def created_def closed_def)
qed

theorem no_cells_no_lines_witness:
  "returned (on_demand_calc (example True (Some ''old'') [[], []] 0)) \<and>
   contents (final (on_demand_calc (example True (Some ''old'') [[], []] 0))) volumedata_csv =
     ''old'' \<and>
   files (final (on_demand_calc (example True None [] 0))) volumedata_csv = Some []"
  using no_cells_no_lines [of "example True (Some ''old'') [[], []] 0"]
    no_cells_no_lines [of "example True None [] 0"]
  by (simp add: Get_Domain_def contents_def)

text \<open>
  C5 as stated, for every domain without cells, fails when the file does not open: nothing
  is opened, the close is called on the null pointer, and the run does not return.
\<close>

theorem no_cells_not_opened:
  "\<not> returned (on_demand_calc (example False (Some ''old'') [[], []] 0)) \<and>
   open_streams (final (on_demand_calc (example False (Some ''old'') [[], []] 0))) = [] \<and>
   library_calls (events_since (example False (Some ''old'') [[], []] 0)
       (final (on_demand_calc (example False (Some ''old'') [[], []] 0)))) =
     [Call_fopen volumedata_csv ''a'' None, Call_printf (''File created'' @ [newline]),
      Call_fclose None]"
  using not_opened(1,5,8) [of "example False (Some ''old'') [[], []] 0"]
  by (simp add: created_def)

subsection \<open>C6: the total is never reported\<close>

text \<open>
  C6. Two runs from states that differ only in what \<open>vol_tot\<close> holds at entry end the
  same way, leave the same files, the same console and the same text in the buffer of the
  standard output, and make the same library calls with the same arguments.
\<close>

theorem total_never_reported:
  "returned (on_demand_calc (s\<lparr>vol_tot := g\<rparr>)) = returned (on_demand_calc s) \<and>
   files (final (on_demand_calc (s\<lparr>vol_tot := g\<rparr>))) = files (final (on_demand_calc s)) \<and>
   console (final (on_demand_calc (s\<lparr>vol_tot := g\<rparr>))) = console (final (on_demand_calc s)) \<and>
   stdout_buffer (final (on_demand_calc (s\<lparr>vol_tot := g\<rparr>))) =
     stdout_buffer (final (on_demand_calc s)) \<and>
   library_calls (events_since (s\<lparr>vol_tot := g\<rparr>) (final (on_demand_calc (s\<lparr>vol_tot := g\<rparr>)))) =
     library_calls (events_since s (final (on_demand_calc s)))"
proof (cases "can_open s volumedata_csv")
  case True
  then have "can_open (s\<lparr>vol_tot := g\<rparr>) volumedata_csv"
    by simp
  from opened(1,2,4,9,10) [OF this] opened(1,2,4,9,10) [OF True] show ?thesis
    by (simp add: contents_def)
next
  case False
  then have "\<not> can_open (s\<lparr>vol_tot := g\<rparr>) volumedata_csv"
    by simp
  from not_opened(1,2,3,8,9) [OF this] not_opened(1,2,3,8,9) [OF False] show ?thesis
    by simp
qed

subsection \<open>C7: the console\<close>

text \<open>
  C7 says that every run writes the two lines \<open>File created\<close> and \<open>File closed\<close>, whatever
  the outcome of \<open>fopen\<close>. The two calls of \<open>printf\<close> are unconditional, and when the file
  opens both lines are written: with a domain without cells, the standard output holds
  exactly the two lines after the run. But \<open>fp\<close> is never tested. When the file does not
  open, the same domain gives the calls \<open>fopen\<close>, \<open>printf\<close> and \<open>fclose\<close> on the null
  pointer: the run ends in that call, before the second \<open>printf\<close>, and with a buffered
  standard output nothing has reached the console.
\<close>

theorem file_closed_not_written:
  "returned (on_demand_calc (example True None [] 0)) \<and>
   stdout_buffer (final (on_demand_calc (example True None [] 0))) =
     ''File created'' @ [newline] @ ''File closed'' @ [newline] \<and>
   \<not> can_open (example False None [] 0) volumedata_csv \<and>
   \<not> returned (on_demand_calc (example False None [] 0)) \<and>
   library_calls (events_since (example False None [] 0)
       (final (on_demand_calc (example False None [] 0)))) =
     [Call_fopen volumedata_csv ''a'' None, Call_printf (''File created'' @ [newline]),
      Call_fclose None] \<and>
   console (final (on_demand_calc (example False None [] 0))) = []"
  using not_opened(1,3,8) [of "example False None [] 0"]
    opened(1,10) [of "example True None [] 0"]
  by (simp add: created_def closed_def)

subsection \<open>C8: termination, every cell once\<close>

text \<open>
  C8, as amended. A domain is a finite list of threads, each a finite list of cells. When
  the file opens the run returns, having entered the body of the thread loop once for each
  thread, in order, and the body of the cell loop once for each cell: the cells visited
  are a list without repetition of exactly the cells of the domain. The two loops are the
  host's, modelled from the spec.
\<close>

theorem every_cell_once:
  assumes "can_open s volumedata_csv"
  shows "returned (on_demand_calc s) \<and>
    thread_visits (events_since s (final (on_demand_calc s))) = [0..<length (Get_Domain 1 s)] \<and>
    cell_visits (events_since s (final (on_demand_calc s))) = cells_of (Get_Domain 1 s) \<and>
    distinct (cells_of (Get_Domain 1 s)) \<and>
    set (cells_of (Get_Domain 1 s)) =
      {(k, c). k < length (Get_Domain 1 s) \<and> c < length (Get_Domain 1 s ! k)}"
  using opened(1,9) [OF assms]
  by (simp add: run_events_projections distinct_cells_of set_cells_of Get_Domain_def)

theorem every_cell_once_witness:
  "returned (on_demand_calc (example True None [[1, 2], [], [3]] 0)) \<and>
   thread_visits (events_since (example True None [[1, 2], [], [3]] 0)
     (final (on_demand_calc (example True None [[1, 2], [], [3]] 0)))) = [0, 1, 2] \<and>
   cell_visits (events_since (example True None [[1, 2], [], [3]] 0)
     (final (on_demand_calc (example True None [[1, 2], [], [3]] 0)))) = [(0, 0), (0, 1), (2, 0)]"
  using every_cell_once [of "example True None [[1, 2], [], [3]] 0"]
  by (simp add: Get_Domain_def cells_of_def enumerate_eq_zip upt_conv_Cons)

text \<open>
  C8 as stated, for every domain, fails when the file does not open: with two cells in one
  thread the run ends in \<open>fprintf\<close> on the null pointer for the first cell, and the second
  cell is never visited.
\<close>

theorem second_cell_not_visited:
  "\<not> returned (on_demand_calc (example False None [[1, 2]] 0)) \<and>
   cell_visits (events_since (example False None [[1, 2]] 0)
     (final (on_demand_calc (example False None [[1, 2]] 0)))) = [(0, 0)] \<and>
   cells_of (Get_Domain 1 (example False None [[1, 2]] 0)) = [(0, 0), (0, 1)]"
  by (simp add: on_demand_calc_def Get_Domain_def fopen_def printf_def thread_loop_c_def
      begin_c_loop_def C_VOLUME_def fprintf_def and_then_def record_event_def example_def
      events_since_def cells_of_def enumerate_eq_zip upt_conv_Cons del: upt_Suc)

subsection \<open>C9: the domain is only read\<close>

text \<open>
  C9. Whether or not the file opens, a run leaves the host's domains as they were, with
  every thread, cell and volume; it also leaves alone every file but the output file, what
  can be opened, and the streams that were open. What it changes is the output file and
  the standard output (and its own variables).
\<close>

theorem domain_read_only:
  "Get_Domain 1 (final (on_demand_calc s)) = Get_Domain 1 s \<and>
   domains (final (on_demand_calc s)) = domains s \<and>
   can_open (final (on_demand_calc s)) = can_open s \<and>
   open_streams (final (on_demand_calc s)) = open_streams s \<and>
   (files (final (on_demand_calc s)))(volumedata_csv := None) = (files s)(volumedata_csv := None)"
proof (cases "can_open s volumedata_csv")
  case True
  from opened(2,5,6,7) [OF this] show ?thesis
    by (simp add: Get_Domain_def)
next
  case False
  from not_opened(2,4,5,6) [OF this] show ?thesis
    by (simp add: Get_Domain_def)
qed

subsection \<open>C10: the grouping into threads does not show\<close>

text \<open>
  C10. Two domains whose traversals yield the same sequence of volumes lead, from the same
  state otherwise, to the same files, the same console and the same text in the buffer of
  the standard output.
\<close>

theorem grouping_irrelevant:
  assumes "concat d = concat d'"
  shows "returned (on_demand_calc (s\<lparr>domains := (domains s)(1 := d)\<rparr>)) =
      returned (on_demand_calc (s\<lparr>domains := (domains s)(1 := d')\<rparr>)) \<and>
    files (final (on_demand_calc (s\<lparr>domains := (domains s)(1 := d)\<rparr>))) =
      files (final (on_demand_calc (s\<lparr>domains := (domains s)(1 := d')\<rparr>))) \<and>
    console (final (on_demand_calc (s\<lparr>domains := (domains s)(1 := d)\<rparr>))) =
      console (final (on_demand_calc (s\<lparr>domains := (domains s)(1 := d')\<rparr>))) \<and>
    stdout_buffer (final (on_demand_calc (s\<lparr>domains := (domains s)(1 := d)\<rparr>))) =
      stdout_buffer (final (on_demand_calc (s\<lparr>domains := (domains s)(1 := d')\<rparr>)))"
proof (cases "can_open s volumedata_csv")
  case True
  then have "can_open (s\<lparr>domains := (domains s)(1 := d)\<rparr>) volumedata_csv"
    "can_open (s\<lparr>domains := (domains s)(1 := d')\<rparr>) volumedata_csv"
    by simp_all
  from opened(1,2,4,10) [OF this(1)] opened(1,2,4,10) [OF this(2)] show ?thesis
    using assms by (simp add: contents_def)
next
  case False
  then have "\<not> can_open (s\<lparr>domains := (domains s)(1 := d)\<rparr>) volumedata_csv"
    "\<not> can_open (s\<lparr>domains := (domains s)(1 := d')\<rparr>) volumedata_csv"
    by simp_all
  from not_opened(1,2,3,9) [OF this(1)] not_opened(1,2,3,9) [OF this(2)] show ?thesis
    by simp
qed

theorem grouping_irrelevant_witness:
  "files (final (on_demand_calc
      (example True None [] 0\<lparr>domains := (domains (example True None [] 0))(1 := [[1, 2], [3]])\<rparr>))) =
   files (final (on_demand_calc
      (example True None [] 0\<lparr>domains := (domains (example True None [] 0))(1 := [[1], [], [2, 3]])\<rparr>)))"
  using grouping_irrelevant [of "[[1, 2], [3]]" "[[1], [], [2, 3]]" "example True None [] 0"]
  by simp

end
